theory Spec2Isabelle
  imports Main "HOL-Library.Word" "HOL-Library.Multiset" "HOL-Library.AList"
begin

section \<open>Data model\<close>

text \<open>
  Go's \<open>int\<close> is a 64-bit two's complement integer on the platforms this program is
  built for: \<open>+\<close>, \<open>-\<close> and \<open>*\<close> wrap around, comparisons are signed.
\<close>

type_synonym go_int = "64 word"

text \<open>\<open>scaler.WorkspaceCount\<close> (controller.go).\<close>

record WorkspaceCount =
  Regular :: go_int
  Prebuild :: go_int
  Ghost :: go_int

text \<open>
  \<open>time.Time\<close>, as far as the controllers read it: the wall-clock fields returned by
  \<open>Hour()\<close>, \<open>Minute()\<close>, \<open>Second()\<close>, \<open>Nanosecond()\<close>, and the offset (seconds east of
  UTC) that \<open>Location()\<close> gives to a date built by \<open>time.Date\<close> on 0000-01-01.
  An instant is an \<open>int\<close>: nanoseconds since 0000-01-01T00:00:00 UTC; \<open>Before\<close>,
  \<open>After\<close> and \<open>Equal\<close> compare instants.
\<close>

record GoTime =
  Hour :: nat
  Minute :: nat
  Second :: nat
  Nanosecond :: nat
  LocationOffset :: int

type_synonym instant = int

text \<open>\<open>type TimeOfDay time.Time\<close>; \<open>SwitchedSetpoint\<close> (controller.go).\<close>

record SwitchedSetpoint =
  Time :: instant
  Setpoint :: go_int

text \<open>What \<open>time.Parse("15:04:05", ...)\<close> yields for hh:mm:ss: that time on 0000-01-01, UTC.\<close>

definition hms :: "nat \<Rightarrow> nat \<Rightarrow> nat \<Rightarrow> instant" where
  "hms h m s = (int h * 3600 + int m * 60 + int s) * 1000000000"

text \<open>
  \<open>time.Date(0, 1, 1, t.Hour(), t.Minute(), t.Second(), t.Nanosecond(), t.Location())\<close>,
  the projection of \<open>t\<close> to its time of day in \<open>findSwitchpoint\<close>.
\<close>

definition time_of_day :: "GoTime \<Rightarrow> instant" where
  "time_of_day t =
     (int (Hour t) * 3600 + int (Minute t) * 60 + int (Second t) - LocationOffset t) * 1000000000
       + int (Nanosecond t)"

section \<open>Setpoint controllers (controller.go)\<close>

subsection \<open>ConstantSetpointController\<close>

text \<open>
  \<open>Control\<close> starts a goroutine that loops over a \<open>select\<close> with two cases. The model
  runs the loop over the sequence of cases the \<open>select\<close> takes and returns what was
  sent on the result channel, in order. The channel is unbuffered, so every value is
  sent before the next case is taken.
\<close>

datatype const_event = CtxDone | CountIn WorkspaceCount

fun ConstantSetpointController_Control :: "go_int \<Rightarrow> const_event list \<Rightarrow> go_int list" where
  "ConstantSetpointController_Control Target [] = []"
| "ConstantSetpointController_Control Target (CtxDone # es) = []"
| "ConstantSetpointController_Control Target (CountIn c # es) =
     (let diff = Target - Ghost c in diff # ConstantSetpointController_Control Target es)"

subsection \<open>TimedFunctionController\<close>

datatype timed_event = TCtxDone | TTick GoTime | TCountIn WorkspaceCount

text \<open>What the goroutine does to the outside: a send on \<open>res\<close> or a call of the callback.\<close>

datatype timed_output = GhostDelta go_int | SetpointChanged go_int

text \<open>
  The loop of \<open>TimedFunctionController.Control\<close>, started with \<open>target := 0\<close>. The tick
  case evaluates \<open>F\<close> and calls \<open>SetpointChanged\<close>; it does not assign \<open>target\<close>.
\<close>

fun TimedFunctionController_loop ::
  "(GoTime \<Rightarrow> go_int) \<Rightarrow> go_int \<Rightarrow> timed_event list \<Rightarrow> timed_output list" where
  "TimedFunctionController_loop F target [] = []"
| "TimedFunctionController_loop F target (TCtxDone # es) = []"
| "TimedFunctionController_loop F target (TTick t # es) =
     (let sp = F t in SetpointChanged sp # TimedFunctionController_loop F target es)"
| "TimedFunctionController_loop F target (TCountIn c # es) =
     (let diff = target - Ghost c in GhostDelta diff # TimedFunctionController_loop F target es)"

definition TimedFunctionController_Control ::
  "(GoTime \<Rightarrow> go_int) \<Rightarrow> timed_event list \<Rightarrow> timed_output list" where
  "TimedFunctionController_Control F es = TimedFunctionController_loop F 0 es"

subsection \<open>SwitchedSetpointController\<close>

record SwitchedSetpointController =
  DefaultSetpoint :: go_int
  Setpoints :: "SwitchedSetpoint list"

text \<open>
  The \<open>range\<close> loop of \<open>findSwitchpoint\<close>. \<open>prev\<close> is \<open>None\<close> at index 0 and the entry
  at index \<open>i - 1\<close> afterwards; running off the end returns the last entry.
\<close>

fun findSwitchpoint_loop ::
  "instant \<Rightarrow> SwitchedSetpoint option \<Rightarrow> SwitchedSetpoint list \<Rightarrow> SwitchedSetpoint option" where
  "findSwitchpoint_loop tod prev [] = prev"
| "findSwitchpoint_loop tod prev (sp # rest) =
     (if tod = Time sp then Some sp
      else if tod > Time sp then findSwitchpoint_loop tod (Some sp) rest
      else prev)"

definition findSwitchpoint ::
  "SwitchedSetpointController \<Rightarrow> GoTime \<Rightarrow> SwitchedSetpoint option" where
  "findSwitchpoint c t =
     (if length (Setpoints c) = 0 then None
      else findSwitchpoint_loop (time_of_day t) None (Setpoints c))"

text \<open>
  \<open>sort.Slice(slice, less)\<close> of the Go standard library; here the comparison \<open>lt\<close>
  takes the two elements rather than their indices. For a short slice the library runs an insertion
  sort: each element in turn is swapped towards the front while it is less than its
  left neighbour. The library promises no particular order for elements that compare
  equal; longer slices are sorted by other strategies, which can differ from this one
  only in the order of such elements.
  \<open>bubble_down lt x ys\<close> takes the sorted prefix reversed (its last element first).
\<close>

fun bubble_down :: "('a \<Rightarrow> 'a \<Rightarrow> bool) \<Rightarrow> 'a \<Rightarrow> 'a list \<Rightarrow> 'a list" where
  "bubble_down lt x [] = [x]"
| "bubble_down lt x (y # ys) = (if lt x y then y # bubble_down lt x ys else x # y # ys)"

definition sort_Slice :: "('a \<Rightarrow> 'a \<Rightarrow> bool) \<Rightarrow> 'a list \<Rightarrow> 'a list" where
  "sort_Slice lt xs = rev (foldl (\<lambda>acc x. bubble_down lt x acc) [] xs)"

datatype error =
  NegativeDefaultSetpoint
| RenewalPercentageOutOfRange
| CannotConnect
| UUIDError
| RPCError
| PanicMakeslice
| PanicSliceBounds

text \<open>
  \<open>NewSwitchedSetpointController\<close>. The slice is sorted in place and the controller
  keeps that same slice, so the second component is what the caller's slice holds
  after the call. The ticker, the clock and the logging callback that the constructor
  installs play no role in \<open>findSwitchpoint\<close> and are left out.
\<close>

definition NewSwitchedSetpointController ::
  "go_int \<Rightarrow> SwitchedSetpoint list \<Rightarrow> (error + SwitchedSetpointController) \<times> SwitchedSetpoint list" where
  "NewSwitchedSetpointController defaultSetpoint setpoints =
     (if defaultSetpoint <s 0 then (Inl NegativeDefaultSetpoint, setpoints)
      else (let sorted_sps = sort_Slice (\<lambda>a b. Time a < Time b) setpoints
            in (Inr \<lparr>DefaultSetpoint = defaultSetpoint, Setpoints = sorted_sps\<rparr>, sorted_sps)))"

section \<open>Prescale driver\<close>

definition DefaultGhostOwner :: string where
  "DefaultGhostOwner = ''00000000-0000-0000-0000-000000000000''"

text \<open>
  \<open>WorkspaceManagerPrescaleDriverConfig\<close>; the nested \<open>Renewal\<close> struct is flattened,
  durations are nanoseconds.
\<close>

record WorkspaceManagerPrescaleDriverConfig =
  WorkspaceManagerAddr :: string
  GhostOwner :: string
  WorkspaceImage :: string
  IDEImage :: string
  MaxGhostWorkspaces :: go_int
  ReactionDelay :: go_int
  RenewalInterval :: go_int
  RenewalPercentage :: go_int

text \<open>
  \<open>NewWorkspaceManagerPrescaleDriver\<close>. \<open>dial\<close> stands for \<open>grpc.Dial\<close>: whether
  dialling the address succeeds. The driver that is returned is determined by the
  configuration it holds.
\<close>

definition NewWorkspaceManagerPrescaleDriver ::
  "(string \<Rightarrow> bool) \<Rightarrow> WorkspaceManagerPrescaleDriverConfig
     \<Rightarrow> error + WorkspaceManagerPrescaleDriverConfig" where
  "NewWorkspaceManagerPrescaleDriver dial config0 =
     (let config = (if GhostOwner config0 = [] then config0\<lparr>GhostOwner := DefaultGhostOwner\<rparr>
                    else config0)
      in if RenewalPercentage config <s 0 \<and> 100 <s RenewalPercentage config
         then Inl RenewalPercentageOutOfRange
         else if \<not> dial (WorkspaceManagerAddr config) then Inl CannotConnect
         else Inr config)"

record workspaceStatus =
  Count :: WorkspaceCount
  DeletionCandidates :: "string list"

subsection \<open>Status maintainer\<close>

text \<open>
  The enums of the workspace manager API. The \<open>switch\<close> of \<open>produceStatus\<close> names
  three workspace types; \<open>PROBE\<close> is the one it does not name.
\<close>

datatype WorkspaceType = REGULAR | PREBUILD | PROBE | GHOST

datatype WorkspacePhase =
  UNKNOWN | PENDING | CREATING | INITIALIZING | RUNNING | INTERRUPTED | STOPPING | STOPPED

text \<open>
  A status message of the workspace manager, as far as the maintainer reads it.
  \<open>StartedAt\<close> is \<open>None\<close> when \<open>ptypes.Timestamp\<close> cannot convert the timestamp.
\<close>

record WorkspaceStatusMsg =
  WsId :: string
  Phase :: WorkspacePhase
  SpecType :: WorkspaceType
  StartedAt :: "instant option"

record workspaceState =
  Started :: instant
  Type :: WorkspaceType

text \<open>
  The Go map \<open>state\<close> is an association list with one entry per key
  (\<open>AList.update\<close>, \<open>AList.delete\<close>); Go ranges over a map in no particular order, the
  model in the order of the list.
\<close>

type_synonym maintainer_state = "(string \<times> workspaceState) list"

definition started_of :: "maintainer_state \<Rightarrow> string \<Rightarrow> instant" where
  "started_of state k = (case map_of state k of Some s \<Rightarrow> Started s | None \<Rightarrow> 0)"

definition produceStatus :: "maintainer_state \<Rightarrow> workspaceStatus" where
  "produceStatus state =
     (let res0 = \<lparr>Count = \<lparr>Regular = 0, Prebuild = 0, Ghost = 0\<rparr>, DeletionCandidates = []\<rparr>;
          res1 = foldl (\<lambda>res (k, s).
                   (let c = Count res;
                        c' = (case Type s of
                                GHOST \<Rightarrow> c\<lparr>Ghost := Ghost c + 1\<rparr>
                              | PREBUILD \<Rightarrow> c\<lparr>Prebuild := Prebuild c + 1\<rparr>
                              | REGULAR \<Rightarrow> c\<lparr>Regular := Regular c + 1\<rparr>
                              | PROBE \<Rightarrow> c)
                    in \<lparr>Count = c', DeletionCandidates = DeletionCandidates res @ [k]\<rparr>))
                 res0 state
      in res1\<lparr>DeletionCandidates :=
                sort_Slice (\<lambda>a b. started_of state a < started_of state b)
                  (DeletionCandidates res1)\<rparr>)"

text \<open>The entry stored for a message; \<open>now\<close> is \<open>time.Now()\<close>.\<close>

definition state_of_msg :: "instant \<Rightarrow> WorkspaceStatusMsg \<Rightarrow> workspaceState" where
  "state_of_msg now s =
     \<lparr>Started = (case StartedAt s of Some t \<Rightarrow> t | None \<Rightarrow> now), Type = SpecType s\<rparr>"

text \<open>The loop over the answer of \<open>GetWorkspaces\<close>, each message with the clock at its turn.\<close>

definition load_workspaces :: "(instant \<times> WorkspaceStatusMsg) list \<Rightarrow> maintainer_state" where
  "load_workspaces wss =
     foldl (\<lambda>state (now, s). AList.update (WsId s) (state_of_msg now s) state) [] wss"

text \<open>What \<open>sub.Recv()\<close> returns: an error, a response without status, or a status.\<close>

datatype recv = RecvError | RecvNoStatus | RecvStatus WorkspaceStatusMsg

text \<open>
  The subscription loop: the statuses sent on the channel, in order, until \<open>Recv\<close>
  returns an error (a cancelled context makes it do so).
\<close>

fun subscription_loop ::
  "maintainer_state \<Rightarrow> (instant \<times> recv) list \<Rightarrow> workspaceStatus list" where
  "subscription_loop state [] = []"
| "subscription_loop state ((now, RecvError) # rest) = []"
| "subscription_loop state ((now, RecvNoStatus) # rest) = subscription_loop state rest"
| "subscription_loop state ((now, RecvStatus s) # rest) =
     (let known = (map_of state (WsId s) \<noteq> None)
      in if known \<and> Phase s = STOPPED then
           (let state' = AList.delete (WsId s) state
            in produceStatus state' # subscription_loop state' rest)
         else if \<not> known \<and> Phase s = PENDING then
           (let state' = AList.update (WsId s) (state_of_msg now s) state
            in produceStatus state' # subscription_loop state' rest)
         else subscription_loop state rest)"

text \<open>
  \<open>maintainWorkspaceStatus\<close> after a successful \<open>GetWorkspaces\<close> and \<open>Subscribe\<close>:
  the initial status, then one status for every event that changes the state.
\<close>

definition maintainWorkspaceStatus ::
  "(instant \<times> WorkspaceStatusMsg) list \<Rightarrow> (instant \<times> recv) list \<Rightarrow> workspaceStatus list" where
  "maintainWorkspaceStatus wss events =
     (let state = load_workspaces wss in produceStatus state # subscription_loop state events)"

subsection \<open>The workspace manager and the other effects\<close>

text \<open>
  The driver talks to the workspace manager, draws UUIDs and reads the clock. A
  \<open>world\<close> records what has been done so far; an \<open>env\<close> fixes what the outside answers:
  the result of the k-th call of \<open>uuid.NewRandom\<close> (\<open>None\<close> is an error), the status
  code of the error returned by the k-th RPC issued (\<open>OK\<close> for a nil error; a timeout
  of the context is an error like any other), and the k-th reading of \<open>time.Now\<close>.
  Of a start request only the instance id and the meta id are kept; its other fields
  are constants or copied from the configuration.
\<close>

datatype rpc_call = StartWorkspace string string | StopWorkspace string

datatype rpc_code = OK | NotFound | OtherCode

record env =
  NewRandom :: "nat \<Rightarrow> string option"
  rpc :: "nat \<Rightarrow> rpc_code"
  Now :: "nat \<Rightarrow> instant"

record world =
  calls :: "rpc_call list"
  uuids_drawn :: nat
  clock_reads :: nat

fun stopGhostWorkspaces :: "env \<Rightarrow> string list \<Rightarrow> world \<Rightarrow> error option \<times> world" where
  "stopGhostWorkspaces e [] w = (None, w)"
| "stopGhostWorkspaces e (k # ids) w =
     (let code = rpc e (length (calls w));
          w' = w\<lparr>calls := calls w @ [StopWorkspace k]\<rparr>
      in if code = NotFound then stopGhostWorkspaces e ids w'
         else if code \<noteq> OK then (Some RPCError, w')
         else stopGhostWorkspaces e ids w')"

text \<open>
  The \<open>for i := 0; i < count; i++\<close> loop of \<open>startGhostWorkspaces\<close>; \<open>ids\<close> is the
  slice made before the loop.
\<close>

function startGhostWorkspaces_loop ::
  "env \<Rightarrow> WorkspaceManagerPrescaleDriverConfig \<Rightarrow> go_int \<Rightarrow> workspaceStatus
     \<Rightarrow> nat \<Rightarrow> string list \<Rightarrow> world \<Rightarrow> (error + string list) \<times> world" where
  "startGhostWorkspaces_loop e cfg cnt status i ids w =
     (if int i < sint cnt then
        (if MaxGhostWorkspaces cfg <s Ghost (Count status) + of_nat i then (Inr ids, w)
         else
           (case NewRandom e (uuids_drawn w) of
              None \<Rightarrow> (Inl UUIDError, w\<lparr>uuids_drawn := uuids_drawn w + 1\<rparr>)
            | Some instanceID \<Rightarrow>
                (let ids' = ids[i := instanceID];
                     w1 = w\<lparr>uuids_drawn := uuids_drawn w + 1\<rparr>
                 in case NewRandom e (uuids_drawn w1) of
                      None \<Rightarrow> (Inl UUIDError, w1\<lparr>uuids_drawn := uuids_drawn w1 + 1\<rparr>)
                    | Some metaID \<Rightarrow>
                        (let code = rpc e (length (calls w1));
                             w2 = w1\<lparr>uuids_drawn := uuids_drawn w1 + 1,
                                     calls := calls w1 @ [StartWorkspace instanceID metaID]\<rparr>
                         in if code \<noteq> OK then (Inl RPCError, w2)
                            else startGhostWorkspaces_loop e cfg cnt status (Suc i) ids' w2))))
      else (Inr ids, w))"
  by pat_completeness auto
termination
  by (relation "measure (\<lambda>(e, cfg, cnt, status, i, ids, w). nat (sint cnt) - i)") auto

declare startGhostWorkspaces_loop.simps [simp del]

text \<open>\<open>make([]string, count)\<close> panics for a negative length and else holds \<open>count\<close> empty strings.\<close>

definition startGhostWorkspaces ::
  "env \<Rightarrow> WorkspaceManagerPrescaleDriverConfig \<Rightarrow> go_int \<Rightarrow> workspaceStatus
     \<Rightarrow> world \<Rightarrow> (error + string list) \<times> world" where
  "startGhostWorkspaces e cfg cnt status w =
     (if cnt <s 0 then (Inl PanicMakeslice, w)
      else startGhostWorkspaces_loop e cfg cnt status 0 (replicate (nat (sint cnt)) []) w)"

subsection \<open>float64 arithmetic of the renewal case\<close>

text \<open>
  Go's \<open>float64\<close> is IEEE 754 binary64. A value is a sign, a mantissa and an exponent,
  standing for \<open>m * 2 ^ e\<close>; every operation rounds its exact result to 53 significant
  bits, to nearest, ties to even. The exponent range plays no role: every value
  computed here is 0.01, a 64-bit integer or a product of such, far from overflow and
  from the subnormal numbers.
\<close>

datatype float64 = Float64 bool nat int

fun bit_length :: "nat \<Rightarrow> nat" where
  "bit_length n = (if n = 0 then 0 else Suc (bit_length (n div 2)))"

declare bit_length.simps [simp del]

definition round_to_53 :: "nat \<Rightarrow> int \<Rightarrow> nat \<times> int" where
  "round_to_53 m e =
     (let l = bit_length m
      in if l \<le> 53 then (m, e)
         else (let s = l - 53;
                   q = m div 2 ^ s;
                   r = m mod 2 ^ s;
                   h = 2 ^ (s - 1);
                   q' = (if h < r \<or> (r = h \<and> odd q) then q + 1 else q)
               in (q', e + int s)))"

text \<open>The conversion \<open>float64(x)\<close> of an \<open>int\<close>.\<close>

definition float64_of_int :: "go_int \<Rightarrow> float64" where
  "float64_of_int x = (case round_to_53 (nat \<bar>sint x\<bar>) 0 of (m, e) \<Rightarrow> Float64 (sint x < 0) m e)"

fun float64_mul :: "float64 \<Rightarrow> float64 \<Rightarrow> float64" where
  "float64_mul (Float64 s1 m1 e1) (Float64 s2 m2 e2) =
     (case round_to_53 (m1 * m2) (e1 + e2) of (m, e) \<Rightarrow> Float64 (s1 \<noteq> s2) m e)"

text \<open>The constant \<open>0.01\<close> as a \<open>float64\<close>: \<open>0x1.47ae147ae147bp-7\<close>.\<close>

definition float64_0_01 :: float64 where
  "float64_0_01 = Float64 False 5764607523034235 (- 59)"

text \<open>
  The conversion \<open>int(f)\<close>: the fraction is dropped. For a value outside the range of
  \<open>int\<close> Go leaves the result to the implementation; this is what amd64 gives.
\<close>

fun int_of_float64 :: "float64 \<Rightarrow> go_int" where
  "int_of_float64 (Float64 neg m e) =
     (let mag = (if 0 \<le> e then int m * 2 ^ nat e else int m div 2 ^ nat (- e));
          v = (if neg then - mag else mag)
      in if - (2 ^ 63) \<le> v \<and> v < 2 ^ 63 then word_of_int v else word_of_int (- (2 ^ 63)))"

subsection \<open>The main loop of Run\<close>

record driver =
  status :: workspaceStatus
  startingGhosts :: "(string \<times> instant) list"

text \<open>The loop \<open>for _, id := range ids\<close> that ends the renewal case and the delta case.\<close>

definition record_started :: "env \<Rightarrow> string list \<Rightarrow> driver \<Rightarrow> world \<Rightarrow> driver \<times> world" where
  "record_started e ids st w =
     foldl (\<lambda>(st, w) k.
              (st\<lparr>startingGhosts := AList.update k (Now e (clock_reads w)) (startingGhosts st),
                  status := (status st)\<lparr>Count := (Count (status st))
                                \<lparr>Ghost := Ghost (Count (status st)) + 1\<rparr>\<rparr>\<rparr>,
               w\<lparr>clock_reads := clock_reads w + 1\<rparr>))
       (st, w) ids"

definition is_panic :: "error \<Rightarrow> bool" where
  "is_panic x = (x = PanicMakeslice \<or> x = PanicSliceBounds)"

text \<open>
  One turn of the \<open>select\<close> in \<open>Run\<close> taking \<open>case d := <-delta\<close>. The result is \<open>Inl\<close>
  when the turn panics. Sleeping for the reaction delay changes nothing here. A
  \<open>continue\<close> leaves the driver as it was.
\<close>

definition Run_delta ::
  "env \<Rightarrow> WorkspaceManagerPrescaleDriverConfig \<Rightarrow> go_int \<Rightarrow> driver \<Rightarrow> world
     \<Rightarrow> error + (driver \<times> world)" where
  "Run_delta e cfg d0 st w =
     (if d0 = 0 then Inr (st, w)
      else
        (case (if d0 <s 0 then
                 (let d1 = d0 * (- 1);
                      n = of_nat (length (DeletionCandidates (status st)));
                      d2 = (if n <s d1 then n else d1)
                  in if d2 <s 0 then Inl PanicSliceBounds
                     else (case stopGhostWorkspaces e
                                  (take (nat (sint d2)) (DeletionCandidates (status st))) w of
                             (err, w1) \<Rightarrow> Inr (d2, err, w1)))
               else Inr (d0, None, w)) of
           Inl x \<Rightarrow> Inl x
         | Inr (d, err1, w1) \<Rightarrow>
             (case (if 0 <s d then
                      (case startGhostWorkspaces e cfg d (status st) w1 of
                         (Inl x, w2) \<Rightarrow> ([], Some x, w2)
                       | (Inr ids, w2) \<Rightarrow> (ids, None, w2))
                    else ([], err1, w1)) of
                (ids, err, w2) \<Rightarrow>
                  (case err of
                     Some x \<Rightarrow> if is_panic x then Inl x else Inr (st, w2)
                   | None \<Rightarrow> Inr (record_started e ids st w2)))))"

text \<open>One turn of the \<open>select\<close> in \<open>Run\<close> taking \<open>case <-renewal\<close>.\<close>

definition renewal_count :: "WorkspaceManagerPrescaleDriverConfig \<Rightarrow> driver \<Rightarrow> go_int" where
  "renewal_count cfg st =
     int_of_float64
       (float64_mul
          (float64_mul (float64_of_int (of_nat (length (DeletionCandidates (status st)))))
                       (float64_of_int (RenewalPercentage cfg)))
          float64_0_01)"

definition Run_renewal ::
  "env \<Rightarrow> WorkspaceManagerPrescaleDriverConfig \<Rightarrow> driver \<Rightarrow> world
     \<Rightarrow> error + (driver \<times> world)" where
  "Run_renewal e cfg st w =
     (let d0 = renewal_count cfg st
      in if d0 = 0 then Inr (st, w)
         else
           (let n = of_nat (length (DeletionCandidates (status st)));
                d = (if n <s d0 then n else d0)
            in if d <s 0 then Inl PanicSliceBounds
               else
                 (case stopGhostWorkspaces e
                         (take (nat (sint d)) (DeletionCandidates (status st))) w of
                    (Some x, w1) \<Rightarrow> Inr (st, w1)
                  | (None, w1) \<Rightarrow>
                      (case startGhostWorkspaces e cfg d (status st) w1 of
                         (Inl x, w2) \<Rightarrow> if is_panic x then Inl x else Inr (st, w2)
                       | (Inr ids, w2) \<Rightarrow> Inr (record_started e ids st w2)))))"

section \<open>Concrete inputs\<close>

text \<open>Counts, clock readings (UTC) and the schedule of the controller tests.\<close>

definition ghost_count :: "go_int \<Rightarrow> WorkspaceCount" where
  "ghost_count g = \<lparr>Regular = 0, Prebuild = 0, Ghost = g\<rparr>"

definition utc_clock :: "nat \<Rightarrow> nat \<Rightarrow> GoTime" where
  "utc_clock h m = \<lparr>Hour = h, Minute = m, Second = 0, Nanosecond = 0, LocationOffset = 0\<rparr>"

definition basic_switchover :: "SwitchedSetpoint list" where
  "basic_switchover =
     [\<lparr>Time = hms 8 0 0, Setpoint = 10\<rparr>,
      \<lparr>Time = hms 12 0 0, Setpoint = 5\<rparr>,
      \<lparr>Time = hms 18 0 0, Setpoint = 1\<rparr>]"

text \<open>The same schedule as it might stand in a configuration file, not in order.\<close>

definition unordered_switchover :: "SwitchedSetpoint list" where
  "unordered_switchover =
     [\<lparr>Time = hms 18 0 0, Setpoint = 1\<rparr>,
      \<lparr>Time = hms 8 0 0, Setpoint = 10\<rparr>,
      \<lparr>Time = hms 12 0 0, Setpoint = 5\<rparr>]"

text \<open>Two setpoints for the same time of day, in both orders.\<close>

definition same_time_10_5 :: "SwitchedSetpoint list" where
  "same_time_10_5 = [\<lparr>Time = hms 8 0 0, Setpoint = 10\<rparr>, \<lparr>Time = hms 8 0 0, Setpoint = 5\<rparr>]"

definition same_time_5_10 :: "SwitchedSetpoint list" where
  "same_time_5_10 = [\<lparr>Time = hms 8 0 0, Setpoint = 5\<rparr>, \<lparr>Time = hms 8 0 0, Setpoint = 10\<rparr>]"

text \<open>
  The function of \<open>TestTimedFunctionController\<close>, seconds since 2020-01-01 UTC, on the
  instants of that day.
\<close>

definition seconds_since_midnight :: "GoTime \<Rightarrow> go_int" where
  "seconds_since_midnight t = of_nat (Hour t * 3600 + Minute t * 60 + Second t)"

text \<open>
  An outside where nothing fails: the k-th UUID is k+1 letters u, every RPC returns a
  nil error, the k-th clock reading is k.
\<close>

definition ok_env :: env where
  "ok_env = \<lparr>NewRandom = (\<lambda>k. Some (replicate (Suc k) CHR ''u'')), rpc = (\<lambda>k. OK),
             Now = (\<lambda>k. int k)\<rparr>"

text \<open>The same outside, but the first RPC issued fails (not with NOT_FOUND).\<close>

definition first_rpc_fails_env :: env where
  "first_rpc_fails_env =
     \<lparr>NewRandom = (\<lambda>k. Some (replicate (Suc k) CHR ''u'')),
      rpc = (\<lambda>k. if k = 0 then OtherCode else OK), Now = (\<lambda>k. int k)\<rparr>"

definition world0 :: world where
  "world0 = \<lparr>calls = [], uuids_drawn = 0, clock_reads = 0\<rparr>"

definition config_with :: "go_int \<Rightarrow> go_int \<Rightarrow> WorkspaceManagerPrescaleDriverConfig" where
  "config_with maxGhosts percentage =
     \<lparr>WorkspaceManagerAddr = ''ws-manager:8080'', GhostOwner = [], WorkspaceImage = ''workspace'',
      IDEImage = ''ide'', MaxGhostWorkspaces = maxGhosts, ReactionDelay = 0,
      RenewalInterval = 60000000000, RenewalPercentage = percentage\<rparr>"

definition driver_with :: "go_int \<Rightarrow> string list \<Rightarrow> driver" where
  "driver_with g cands =
     \<lparr>status = \<lparr>Count = ghost_count g, DeletionCandidates = cands\<rparr>, startingGhosts = []\<rparr>"

definition ten_ghosts :: "string list" where
  "ten_ghosts = [''a'', ''b'', ''c'', ''d'', ''e'', ''f'', ''g'', ''h'', ''i'', ''j'']"

text \<open>A workspace manager that runs one regular workspace and nothing else.\<close>

definition one_regular_workspace :: "(instant \<times> WorkspaceStatusMsg) list" where
  "one_regular_workspace =
     [(0, \<lparr>WsId = ''w1'', Phase = RUNNING, SpecType = REGULAR, StartedAt = Some 5\<rparr>)]"

section \<open>Properties of the setpoint controllers\<close>

subsection \<open>ConstantSetpointController\<close>

text \<open>
  Claim C9. For every sequence of \<open>WorkspaceCount\<close> observations, the controller with
  target \<open>T\<close> emits, for each observation \<open>c\<close> in order, exactly \<open>T - c.Ghost\<close>
  (the subtraction of Go's \<open>int\<close>); with target 10 and ghost counts 0, 10, 5 the
  outputs are 10, 0, 5.
\<close>

theorem constant_controller_emits_difference:
  "ConstantSetpointController_Control T (map CountIn cs) = map (\<lambda>c. T - Ghost c) cs
   \<and> ConstantSetpointController_Control 10
        (map CountIn [ghost_count 0, ghost_count 10, ghost_count 5]) = [10, 0, 5]"
proof
  show "ConstantSetpointController_Control T (map CountIn cs) = map (\<lambda>c. T - Ghost c) cs"
    by (induction cs) simp_all
  show "ConstantSetpointController_Control 10
          (map CountIn [ghost_count 0, ghost_count 10, ghost_count 5]) = [10, 0, 5]"
    by (simp add: ghost_count_def)
qed

subsection \<open>TimedFunctionController\<close>

text \<open>
  The deltas sent by the loop are computed from the target the loop was started with,
  whatever ticks arrive in between.
\<close>

lemma timed_loop_deltas:
  "[d. GhostDelta d \<leftarrow> TimedFunctionController_loop F target es] =
   [target - Ghost c. TCountIn c \<leftarrow> takeWhile (\<lambda>ev. ev \<noteq> TCtxDone) es]"
proof (induction es)
  case Nil
  then show ?case by simp
next
  case (Cons ev es)
  then show ?case by (cases ev) simp_all
qed

text \<open>
  Claim C4 says that on each observed count the controller emits \<open>target - c.Ghost\<close>,
  where \<open>target\<close> is \<open>F\<close> at the most recent tick, so that a tick with \<open>F t = 18000\<close>
  followed by a count with no ghosts yields 18000. The code evaluates \<open>F\<close> on a tick and
  reports the value to \<open>SetpointChanged\<close>, but never stores it: after any tick, the
  delta for a count \<open>c\<close> is \<open>0 - c.Ghost\<close>, and in the example it is 0.
\<close>

theorem timed_controller_ignores_ticks:
  "TimedFunctionController_Control F [TTick t, TCountIn c]
     = [SetpointChanged (F t), GhostDelta (0 - Ghost c)]
   \<and> TimedFunctionController_Control seconds_since_midnight
        [TTick (utc_clock 5 0), TCountIn (ghost_count 0)]
     = [SetpointChanged 18000, GhostDelta 0]"
  by (simp add: TimedFunctionController_Control_def seconds_since_midnight_def utc_clock_def
      ghost_count_def)

subsection \<open>findSwitchpoint\<close>








subsection \<open>Sorting at construction\<close>

lemma mset_bubble_down: "mset (bubble_down lt x acc) = add_mset x (mset acc)"
  by (induction acc) auto

lemma set_bubble_down: "set (bubble_down lt x acc) = insert x (set acc)"
  by (induction acc) auto

lemma sorted_bubble_down:
  fixes f :: "'a \<Rightarrow> int"
  shows "sorted (rev (map f acc)) \<Longrightarrow> sorted (rev (map f (bubble_down (\<lambda>a b. f a < f b) x acc)))"
  by (induction acc) (auto simp: sorted_append set_bubble_down)

lemma foldl_bubble_down:
  fixes f :: "'a \<Rightarrow> int"
  shows "sorted (rev (map f acc)) \<Longrightarrow>
     sorted (rev (map f (foldl (\<lambda>a x. bubble_down (\<lambda>a b. f a < f b) x a) acc xs))) \<and>
     mset (foldl (\<lambda>a x. bubble_down (\<lambda>a b. f a < f b) x a) acc xs) = mset acc + mset xs"
  by (induction xs arbitrary: acc) (auto simp: sorted_bubble_down mset_bubble_down)

lemma sorted_sort_Slice:
  fixes f :: "'a \<Rightarrow> int"
  shows "sorted (map f (sort_Slice (\<lambda>a b. f a < f b) xs))"
  using foldl_bubble_down [of f "[]" xs] by (simp add: sort_Slice_def rev_map)

lemma mset_sort_Slice:
  fixes f :: "'a \<Rightarrow> int"
  shows "mset (sort_Slice (\<lambda>a b. f a < f b) xs) = mset xs"
  using foldl_bubble_down [of f "[]" xs] by (simp add: sort_Slice_def)

lemma sorted_unique_by_Time:
  assumes "sorted (map Time xs)" "sorted (map Time ys)" "mset xs = mset ys"
    and "distinct (map Time xs)"
  shows "xs = ys"
proof -
  have m: "mset (map Time xs) = mset (map Time ys)" using assms(3) by simp
  have "sort (map Time ys) = map Time xs" by (rule properties_for_sort [OF m assms(1)])
  moreover have "sort (map Time ys) = map Time ys" using assms(2) by (simp add: sorted_sort_id)
  ultimately have eq: "map Time xs = map Time ys" by simp
  have "set ys = set xs" using assms(3) by (metis set_mset_mset)
  moreover have "inj_on Time (set xs)" using assms(4) by (simp add: distinct_map)
  ultimately have "inj_on Time (set xs \<union> set ys)" by simp
  then show ?thesis using eq by (simp add: inj_on_map_eq_map)
qed

text \<open>
  Claim C10 says that, because \<open>NewSwitchedSetpointController\<close> sorts the setpoints by
  time of day, every permutation of the same setpoints gives a controller whose
  \<open>findSwitchpoint\<close> returns the same setpoint at every time. The sort compares times
  only: two setpoints for the same time of day stay in the order in which they were
  given, and at that time of day \<open>findSwitchpoint\<close> returns whichever comes first.
\<close>

theorem construction_order_matters_for_equal_times:
  "mset same_time_5_10 = mset same_time_10_5 \<and>
   NewSwitchedSetpointController 2 same_time_10_5
     = (Inr \<lparr>DefaultSetpoint = 2, Setpoints = same_time_10_5\<rparr>, same_time_10_5) \<and>
   NewSwitchedSetpointController 2 same_time_5_10
     = (Inr \<lparr>DefaultSetpoint = 2, Setpoints = same_time_5_10\<rparr>, same_time_5_10) \<and>
   findSwitchpoint \<lparr>DefaultSetpoint = 2, Setpoints = same_time_10_5\<rparr> (utc_clock 8 0)
     = Some \<lparr>Time = hms 8 0 0, Setpoint = 10\<rparr> \<and>
   findSwitchpoint \<lparr>DefaultSetpoint = 2, Setpoints = same_time_5_10\<rparr> (utc_clock 8 0)
     = Some \<lparr>Time = hms 8 0 0, Setpoint = 5\<rparr>"
  by (simp add: same_time_5_10_def same_time_10_5_def NewSwitchedSetpointController_def
      sort_Slice_def findSwitchpoint_def time_of_day_def utc_clock_def hms_def word_sless_alt
      Let_def)

text \<open>
  Claim C10, amended. For a non-negative default setpoint,
  \<open>NewSwitchedSetpointController\<close> sorts the supplied slice in place, ascending by time
  of day, and stores that slice (the second component is the caller's slice). When the setpoints have pairwise distinct times of
  day, every permutation of them yields the same stored list, hence the same result of
  \<open>findSwitchpoint\<close> at every time.
\<close>

theorem construction_sorts_setpoints:
  assumes "0 \<le>s d" and "distinct (map Time xs)" and "mset ys = mset xs"
  shows "\<exists>c. NewSwitchedSetpointController d xs = (Inr c, Setpoints c) \<and>
             sorted (map Time (Setpoints c)) \<and> mset (Setpoints c) = mset xs \<and>
             (\<exists>c'. NewSwitchedSetpointController d ys = (Inr c', Setpoints c') \<and>
                   findSwitchpoint c' t = findSwitchpoint c t)"
proof -
  let ?lt = "\<lambda>a b. Time a < Time b"
  have nonneg: "\<not> d <s 0" using assms(1) by (simp add: word_sless_alt word_sle_eq)
  have "distinct (map Time (sort_Slice ?lt xs))"
  proof -
    have "mset (map Time (sort_Slice ?lt xs)) = mset (map Time xs)"
      by (simp add: mset_sort_Slice)
    from mset_eq_imp_distinct_iff [OF this] show ?thesis using assms(2) by simp
  qed
  then have eq: "sort_Slice ?lt xs = sort_Slice ?lt ys"
    by (intro sorted_unique_by_Time sorted_sort_Slice) (simp_all add: mset_sort_Slice assms(3))
  let ?c = "\<lparr>DefaultSetpoint = d, Setpoints = sort_Slice ?lt xs\<rparr>"
  have 1: "NewSwitchedSetpointController d xs = (Inr ?c, Setpoints ?c)"
    using nonneg by (simp add: NewSwitchedSetpointController_def Let_def)
  have 2: "NewSwitchedSetpointController d ys = (Inr ?c, Setpoints ?c)"
    using nonneg eq by (simp add: NewSwitchedSetpointController_def Let_def)
  have 3: "sorted (map Time (Setpoints ?c))" by (simp add: sorted_sort_Slice)
  have 4: "mset (Setpoints ?c) = mset xs" by (simp add: mset_sort_Slice)
  from 1 2 3 4 show ?thesis by blast
qed

theorem construction_sorts_setpoints_witness:
  "0 \<le>s (2 :: go_int) \<and> distinct (map Time basic_switchover) \<and>
   mset unordered_switchover = mset basic_switchover \<and>
   (\<exists>c. NewSwitchedSetpointController 2 basic_switchover = (Inr c, Setpoints c) \<and>
        sorted (map Time (Setpoints c)) \<and> mset (Setpoints c) = mset basic_switchover \<and>
        (\<exists>c'. NewSwitchedSetpointController 2 unordered_switchover = (Inr c', Setpoints c') \<and>
              findSwitchpoint c' (utc_clock 9 0) = findSwitchpoint c (utc_clock 9 0)))"
proof -
  have a: "0 \<le>s (2 :: go_int)" by (simp add: word_sle_eq)
  have b: "distinct (map Time basic_switchover)" by (simp add: basic_switchover_def hms_def)
  have c: "mset unordered_switchover = mset basic_switchover"
    by (simp add: basic_switchover_def unordered_switchover_def)
  from construction_sorts_setpoints [OF a b c, of "utc_clock 9 0"] a b c
  show ?thesis by blast
qed

section \<open>Properties of the prescale driver\<close>

subsection \<open>Construction\<close>

text \<open>
  Claim C6 says that constructing the driver with \<open>renewal.percentage\<close> below 0 or
  above 100 fails with a configuration error. The check in the code asks for the
  percentage to be below 0 and above 100 at once, which no number is: the error is
  never returned, and a percentage of 150 or of -1 is accepted like any other.
\<close>

theorem renewal_percentage_never_rejected:
  "NewWorkspaceManagerPrescaleDriver dial cfg \<noteq> Inl RenewalPercentageOutOfRange \<and>
   NewWorkspaceManagerPrescaleDriver (\<lambda>addr. True) (config_with 5 150)
     = Inr ((config_with 5 150)\<lparr>GhostOwner := DefaultGhostOwner\<rparr>) \<and>
   NewWorkspaceManagerPrescaleDriver (\<lambda>addr. True) (config_with 5 (- 1))
     = Inr ((config_with 5 (- 1))\<lparr>GhostOwner := DefaultGhostOwner\<rparr>)"
proof (intro conjI)
  show "NewWorkspaceManagerPrescaleDriver dial cfg \<noteq> Inl RenewalPercentageOutOfRange"
    by (auto simp add: NewWorkspaceManagerPrescaleDriver_def Let_def word_sless_alt)
  show "NewWorkspaceManagerPrescaleDriver (\<lambda>addr. True) (config_with 5 150)
          = Inr ((config_with 5 150)\<lparr>GhostOwner := DefaultGhostOwner\<rparr>)"
    by (simp add: NewWorkspaceManagerPrescaleDriver_def Let_def word_sless_alt config_with_def)
  show "NewWorkspaceManagerPrescaleDriver (\<lambda>addr. True) (config_with 5 (- 1))
          = Inr ((config_with 5 (- 1))\<lparr>GhostOwner := DefaultGhostOwner\<rparr>)"
    by (simp add: NewWorkspaceManagerPrescaleDriver_def Let_def word_sless_alt config_with_def)
qed

subsection \<open>Status maintainer\<close>

lemma foldl_candidates:
  assumes "\<And>res k s. DeletionCandidates (f res (k, s)) = DeletionCandidates res @ [k]"
  shows "DeletionCandidates (foldl f res0 state) = DeletionCandidates res0 @ map fst state"
proof (induction state arbitrary: res0)
  case Nil
  then show ?case by simp
next
  case (Cons a state)
  obtain k s where a: "a = (k, s)" by (cases a)
  show ?case by (simp add: Cons.IH a assms)
qed

lemma set_sort_Slice: "set (sort_Slice lt xs) = set xs"
proof -
  have "set (foldl (\<lambda>acc x. bubble_down lt x acc) acc xs) = set acc \<union> set xs" for acc
    by (induction xs arbitrary: acc) (auto simp: set_bubble_down)
  then show ?thesis by (simp add: sort_Slice_def)
qed

lemma produceStatus_candidates:
  "set (DeletionCandidates (produceStatus state)) = fst ` set state"
  by (simp add: produceStatus_def Let_def set_sort_Slice foldl_candidates)

text \<open>
  Claim C5 says that every status emitted by the maintainer lists only ghost workspaces
  as deletion candidates, so that there are at most \<open>count.ghost\<close> of them. In
  \<open>produceStatus\<close> the \<open>append\<close> stands after the \<open>switch\<close>, not in its ghost case:
  the candidates of a status are all the workspaces of the state, whatever their type.
  With one regular workspace the initial status counts no ghost and has that workspace
  as a deletion candidate.
\<close>

theorem regular_workspace_is_deletion_candidate:
  "set (DeletionCandidates (produceStatus state)) = fst ` set state \<and>
   maintainWorkspaceStatus one_regular_workspace []
     = [\<lparr>Count = \<lparr>Regular = 1, Prebuild = 0, Ghost = 0\<rparr>, DeletionCandidates = [''w1'']\<rparr>]"
proof
  show "set (DeletionCandidates (produceStatus state)) = fst ` set state"
    by (rule produceStatus_candidates)
  show "maintainWorkspaceStatus one_regular_workspace []
     = [\<lparr>Count = \<lparr>Regular = 1, Prebuild = 0, Ghost = 0\<rparr>, DeletionCandidates = [''w1'']\<rparr>]"
    by (simp add: maintainWorkspaceStatus_def one_regular_workspace_def load_workspaces_def
        produceStatus_def state_of_msg_def sort_Slice_def Let_def)
qed

subsection \<open>Starting and stopping ghosts\<close>

lemma replicate_numeral: "replicate (numeral k) x = x # replicate (pred_numeral k) x"
  by (simp add: numeral_eq_Suc)

lemmas driver_eval =
  Run_delta_def startGhostWorkspaces_def startGhostWorkspaces_loop.simps record_started_def
  ok_env_def config_with_def driver_with_def ghost_count_def world0_def
  word_sless_alt Let_def replicate_numeral

text \<open>
  Claim C1 says that for a delta \<open>d < 0\<close> the driver stops the
  \<open>min(|d|, len(deletionCandidates))\<close> oldest candidates and issues no start in that
  turn. The code negates \<open>d\<close> in the branch for \<open>d < 0\<close> and then tests \<open>d > 0\<close> in a
  second \<open>if\<close>, not in an \<open>else\<close>: after the stops it starts as many ghosts as it
  stopped. With delta -2, three candidates, three ghosts and a cap of 10, the turn
  issues two stops and then two starts.
\<close>

theorem negative_delta_also_starts:
  "Run_delta ok_env (config_with 10 0) (- 2) (driver_with 3 [''a'', ''b'', ''c'']) world0
     = Inr (\<lparr>status = \<lparr>Count = ghost_count 5, DeletionCandidates = [''a'', ''b'', ''c'']\<rparr>,
              startingGhosts = [(''u'', 0), (''uuu'', 1)]\<rparr>,
            \<lparr>calls = [StopWorkspace ''a'', StopWorkspace ''b'',
                      StartWorkspace ''u'' ''uu'', StartWorkspace ''uuu'' ''uuuu''],
               uuids_drawn = 4, clock_reads = 2\<rparr>)"
  by (simp add: driver_eval)

text \<open>
  Claim C2 says that a start is issued in iteration \<open>i\<close> only when the observed ghost
  count plus \<open>i\<close> is strictly below \<open>maxGhostWorkspaces\<close>, so that with a cap of 5,
  four ghosts and a request for three, exactly one start is issued, and none once the
  count has reached the cap. The loop stops when the sum exceeds the cap, not when it
  reaches it: in the example two starts are issued, and with five ghosts already
  there a request for one is still started.
\<close>

theorem start_cap_off_by_one:
  "calls (snd (startGhostWorkspaces ok_env (config_with 5 0) 3
                 \<lparr>Count = ghost_count 4, DeletionCandidates = []\<rparr> world0))
     = [StartWorkspace ''u'' ''uu'', StartWorkspace ''uuu'' ''uuuu''] \<and>
   calls (snd (startGhostWorkspaces ok_env (config_with 5 0) 1
                 \<lparr>Count = ghost_count 5, DeletionCandidates = []\<rparr> world0))
     = [StartWorkspace ''u'' ''uu'']"
  by (simp add: driver_eval)

text \<open>
  Claim C3 says that the list returned by the start algorithm holds exactly the ids of
  the starts issued, also when the cap ends the loop early, so that the driver records
  only those in \<open>startingGhosts\<close>. The list is made with the requested length and
  returned whole: the entries of the iterations that never ran are empty strings. With
  a cap of 5, five ghosts and a request for three, one start is issued and three ids
  are returned; the driver then records the empty string as a starting ghost and
  counts three more ghosts.
\<close>

theorem start_returns_unissued_ids:
  "startGhostWorkspaces ok_env (config_with 5 0) 3
       \<lparr>Count = ghost_count 5, DeletionCandidates = []\<rparr> world0
     = (Inr [''u'', [], []],
        \<lparr>calls = [StartWorkspace ''u'' ''uu''], uuids_drawn = 2, clock_reads = 0\<rparr>) \<and>
   Run_delta ok_env (config_with 5 0) 3 (driver_with 5 []) world0
     = Inr (\<lparr>status = \<lparr>Count = ghost_count 8, DeletionCandidates = []\<rparr>,
              startingGhosts = [(''u'', 0), ([], 2)]\<rparr>,
            \<lparr>calls = [StartWorkspace ''u'' ''uu''], uuids_drawn = 2, clock_reads = 3\<rparr>)"
  by (simp add: driver_eval)

subsection \<open>The calls issued by the stop and start algorithms\<close>

lemma stopGhostWorkspaces_no_error:
  assumes "\<forall>j<length ids. rpc e (length (calls w) + j) \<noteq> OtherCode"
  shows "stopGhostWorkspaces e ids w = (None, w\<lparr>calls := calls w @ map StopWorkspace ids\<rparr>)"
  using assms
proof (induction ids arbitrary: w)
  case Nil
  then show ?case by simp
next
  case (Cons a ids)
  let ?w = "w\<lparr>calls := calls w @ [StopWorkspace a]\<rparr>"
  from Cons.prems have here: "rpc e (length (calls w)) \<noteq> OtherCode" by force
  have "\<forall>j<length ids. rpc e (length (calls ?w) + j) \<noteq> OtherCode"
  proof (intro allI impI)
    fix j
    assume "j < length ids"
    then have "Suc j < length (a # ids)" by simp
    with Cons.prems have "rpc e (length (calls w) + Suc j) \<noteq> OtherCode" by blast
    then show "rpc e (length (calls ?w) + j) \<noteq> OtherCode" by simp
  qed
  then have "stopGhostWorkspaces e ids ?w = (None, ?w\<lparr>calls := calls ?w @ map StopWorkspace ids\<rparr>)"
    by (rule Cons.IH)
  with here show ?case
    by (cases "rpc e (length (calls w))") (simp_all add: Let_def)
qed

lemma stopGhostWorkspaces_first_error:
  assumes "j < length ids"
    and "rpc e (length (calls w) + j) = OtherCode"
    and "\<forall>i<j. rpc e (length (calls w) + i) \<noteq> OtherCode"
  shows "stopGhostWorkspaces e ids w
           = (Some RPCError, w\<lparr>calls := calls w @ map StopWorkspace (take (Suc j) ids)\<rparr>)"
  using assms
proof (induction ids arbitrary: w j)
  case Nil
  then show ?case by simp
next
  case (Cons a ids)
  let ?w = "w\<lparr>calls := calls w @ [StopWorkspace a]\<rparr>"
  show ?case
  proof (cases j)
    case 0
    with Cons.prems(2) show ?thesis by (simp add: Let_def)
  next
    case (Suc j')
    with Cons.prems(3) have here: "rpc e (length (calls w)) \<noteq> OtherCode" by force
    have 1: "j' < length ids" using Cons.prems(1) Suc by simp
    have 2: "rpc e (length (calls ?w) + j') = OtherCode" using Cons.prems(2) Suc by simp
    have 3: "\<forall>i<j'. rpc e (length (calls ?w) + i) \<noteq> OtherCode"
    proof (intro allI impI)
      fix i
      assume "i < j'"
      then have "Suc i < j" using Suc by simp
      with Cons.prems(3) have "rpc e (length (calls w) + Suc i) \<noteq> OtherCode" by blast
      then show "rpc e (length (calls ?w) + i) \<noteq> OtherCode" by simp
    qed
    have "stopGhostWorkspaces e ids ?w
            = (Some RPCError, ?w\<lparr>calls := calls ?w @ map StopWorkspace (take (Suc j') ids)\<rparr>)"
      by (rule Cons.IH [OF 1 2 3])
    with here Suc show ?thesis
      by (cases "rpc e (length (calls w))") (simp_all add: Let_def)
  qed
qed

lemma record_started_calls: "calls (snd (record_started e ids st w)) = calls w"
proof -
  have "calls (snd (foldl f (st, w) ids)) = calls w"
    if "f = (\<lambda>(st, w) k.
              (st\<lparr>startingGhosts := AList.update k (Now e (clock_reads w)) (startingGhosts st),
                  status := (status st)\<lparr>Count := (Count (status st))
                                \<lparr>Ghost := Ghost (Count (status st)) + 1\<rparr>\<rparr>\<rparr>,
               w\<lparr>clock_reads := clock_reads w + 1\<rparr>))" for f
    using that by (induction ids arbitrary: st w) simp_all
  then show ?thesis by (simp add: record_started_def)
qed

lemma startGhostWorkspaces_loop_calls:
  assumes "startGhostWorkspaces_loop e cfg cnt st i ids w = (res, w')"
  shows "\<exists>starts. calls w' = calls w @ starts \<and> length starts \<le> nat (sint cnt) - i \<and>
           (\<forall>c\<in>set starts. \<exists>a b. c = StartWorkspace a b) \<and>
           (\<forall>x. res = Inl x \<longrightarrow> \<not> is_panic x)"
  using assms
proof (induction e cfg cnt st i ids w rule: startGhostWorkspaces_loop.induct)
  case (1 e cfg cnt st i ids w)
  let ?goal = "\<lambda>starts. calls w' = calls w @ starts \<and> length starts \<le> nat (sint cnt) - i \<and>
           (\<forall>c\<in>set starts. \<exists>a b. c = StartWorkspace a b) \<and>
           (\<forall>x. res = Inl x \<longrightarrow> \<not> is_panic x)"
  note run = "1.prems" [unfolded startGhostWorkspaces_loop.simps [of e cfg cnt st i ids w]]
  show ?case
  proof (cases "int i < sint cnt")
    case False
    with run have "res = Inr ids" "w' = w" by simp_all
    then have "?goal []" by simp
    then show ?thesis by blast
  next
    case more: True
    show ?thesis
    proof (cases "MaxGhostWorkspaces cfg <s Ghost (Count st) + of_nat i")
      case True
      with more run have "res = Inr ids" "w' = w" by simp_all
      then have "?goal []" by simp
      then show ?thesis by blast
    next
      case room: False
      show ?thesis
      proof (cases "NewRandom e (uuids_drawn w)")
        case None
        with more room run have "res = Inl UUIDError" "calls w' = calls w" by auto
        then have "?goal []" by (simp add: is_panic_def)
        then show ?thesis by blast
      next
        case (Some instanceID)
        let ?w1 = "w\<lparr>uuids_drawn := uuids_drawn w + 1\<rparr>"
        show ?thesis
        proof (cases "NewRandom e (uuids_drawn ?w1)")
          case None
          with Some more room run have "res = Inl UUIDError" "calls w' = calls w"
            by (auto simp: Let_def)
          then have "?goal []" by (simp add: is_panic_def)
          then show ?thesis by blast
        next
          case meta: (Some metaID)
          let ?w2 = "?w1\<lparr>uuids_drawn := uuids_drawn ?w1 + 1,
                          calls := calls ?w1 @ [StartWorkspace instanceID metaID]\<rparr>"
          show ?thesis
          proof (cases "rpc e (length (calls ?w1)) = OK")
            case False
            with Some meta more room run have "res = Inl RPCError" "w' = ?w2"
              by (auto simp: Let_def)
            moreover have "Suc 0 \<le> nat (sint cnt) - i" using more by linarith
            ultimately have "?goal [StartWorkspace instanceID metaID]"
              by (simp add: is_panic_def)
            then show ?thesis by blast
          next
            case True
            with Some meta more room run
            have rec: "startGhostWorkspaces_loop e cfg cnt st (Suc i) (ids[i := instanceID]) ?w2
                         = (res, w')"
              by (simp add: Let_def)
            have "\<exists>starts. calls w' = calls ?w2 @ starts \<and>
                    length starts \<le> nat (sint cnt) - Suc i \<and>
                    (\<forall>c\<in>set starts. \<exists>a b. c = StartWorkspace a b) \<and>
                    (\<forall>x. res = Inl x \<longrightarrow> \<not> is_panic x)"
              using more room Some meta True rec
              by (intro "1.IH" [of instanceID "ids[i := instanceID]" ?w1 metaID
                    "rpc e (length (calls ?w1))" ?w2]) simp_all
            then obtain starts where s: "calls w' = calls ?w2 @ starts"
              "length starts \<le> nat (sint cnt) - Suc i"
              "\<forall>c\<in>set starts. \<exists>a b. c = StartWorkspace a b"
              "\<forall>x. res = Inl x \<longrightarrow> \<not> is_panic x"
              by blast
            have "Suc (nat (sint cnt) - Suc i) = nat (sint cnt) - i" using more by linarith
            with s have "?goal (StartWorkspace instanceID metaID # starts)" by auto
            then show ?thesis by blast
          qed
        qed
      qed
    qed
  qed
qed

lemma startGhostWorkspaces_loop_all_started:
  assumes "startGhostWorkspaces_loop e cfg cnt st i ids w = (res, w')"
    and ok: "\<forall>j. rpc e j = OK \<and> NewRandom e j \<noteq> None"
    and room: "\<forall>j. int j < sint cnt \<longrightarrow> \<not> MaxGhostWorkspaces cfg <s Ghost (Count st) + of_nat j"
  shows "length (calls w') = length (calls w) + (nat (sint cnt) - i) \<and> (\<exists>ids'. res = Inr ids')"
  using assms
proof (induction e cfg cnt st i ids w rule: startGhostWorkspaces_loop.induct)
  case (1 e cfg cnt st i ids w)
  note run = "1.prems"(1) [unfolded startGhostWorkspaces_loop.simps [of e cfg cnt st i ids w]]
  note ok = "1.prems"(2) and room = "1.prems"(3)
  show ?case
  proof (cases "int i < sint cnt")
    case False
    with run show ?thesis by auto
  next
    case more: True
    with room have r: "\<not> MaxGhostWorkspaces cfg <s Ghost (Count st) + of_nat i" by blast
    from ok obtain instanceID where u1: "NewRandom e (uuids_drawn w) = Some instanceID" by blast
    let ?w1 = "w\<lparr>uuids_drawn := uuids_drawn w + 1\<rparr>"
    from ok obtain metaID where u2: "NewRandom e (uuids_drawn ?w1) = Some metaID" by blast
    let ?w2 = "?w1\<lparr>uuids_drawn := uuids_drawn ?w1 + 1,
                    calls := calls ?w1 @ [StartWorkspace instanceID metaID]\<rparr>"
    from ok have c: "rpc e (length (calls ?w1)) = OK" by blast
    from run more r u1 u2 c
    have rec: "startGhostWorkspaces_loop e cfg cnt st (Suc i) (ids[i := instanceID]) ?w2 = (res, w')"
      by (simp add: Let_def)
    have "length (calls w') = length (calls ?w2) + (nat (sint cnt) - Suc i) \<and> (\<exists>ids'. res = Inr ids')"
      using more r u1 u2 c rec ok room
      by (intro "1.IH" [of instanceID "ids[i := instanceID]" ?w1 metaID
                    "rpc e (length (calls ?w1))" ?w2]) simp_all
    moreover have "Suc (nat (sint cnt) - Suc i) = nat (sint cnt) - i" using more by linarith
    ultimately show ?thesis by simp
  qed
qed

subsection \<open>The renewal count\<close>

lemma bit_length_le: "n < 2 ^ k \<Longrightarrow> bit_length n \<le> k"
proof (induction k arbitrary: n)
  case 0
  then show ?case by (simp add: bit_length.simps)
next
  case (Suc k)
  show ?case
  proof (cases "n = 0")
    case True
    then show ?thesis by (simp add: bit_length.simps)
  next
    case False
    from Suc.prems have "n div 2 < 2 ^ k" by auto
    then have "bit_length (n div 2) \<le> k" by (rule Suc.IH)
    with False show ?thesis by (subst bit_length.simps) simp
  qed
qed

lemma bit_length_bounds: "n \<noteq> 0 \<Longrightarrow> 2 ^ (bit_length n - 1) \<le> n \<and> n < 2 ^ bit_length n"
proof (induction n rule: bit_length.induct)
  case (1 n)
  show ?case
  proof (cases "n div 2 = 0")
    case True
    with 1 have "n = 1" by (auto simp: div_eq_0_iff)
    then show ?thesis by (simp add: bit_length.simps)
  next
    case False
    with 1 have IH: "2 ^ (bit_length (n div 2) - 1) \<le> n div 2 \<and> n div 2 < 2 ^ bit_length (n div 2)"
      by simp
    have pos: "bit_length (n div 2) \<noteq> 0" using False by (subst bit_length.simps) simp
    have eq: "bit_length n = Suc (bit_length (n div 2))" using 1(2) by (subst bit_length.simps) simp
    from pos obtain b where b: "bit_length (n div 2) = Suc b" by (cases "bit_length (n div 2)") auto
    from IH b have "2 ^ b \<le> n div 2" "n div 2 < 2 * 2 ^ b" by simp_all
    then have "2 * 2 ^ b \<le> n" "n < 2 * (2 * 2 ^ b)" by linarith+
    then show ?thesis by (simp add: eq b)
  qed
qed

lemma pow59: "(2::nat) ^ 59 = 576460752303423488" by simp
lemma pow53: "(2::nat) ^ 53 = 9007199254740992" by simp
lemma pow52: "(2::nat) ^ 52 = 4503599627370496" by simp

lemma product_bounds:
  fixes x :: nat
  assumes "x < 2 ^ 53"
  shows "(x div 100) * 2 ^ 59 \<le> x * 5764607523034235"
    and "x * 5764607523034235 + 2 ^ 52 < (x div 100 + 1) * 2 ^ 59"
proof -
  define k where "k = x div 100"
  define j where "j = x mod 100"
  have x: "x = 100 * k + j" and j: "j < 100" by (simp_all add: k_def j_def)
  have k: "k < 90071992547410" using assms unfolding k_def pow53 by (simp add: div_less_iff_less_mult)
  show "(x div 100) * 2 ^ 59 \<le> x * 5764607523034235"
    unfolding k_def [symmetric] pow59 x by simp
  show "x * 5764607523034235 + 2 ^ 52 < (x div 100 + 1) * 2 ^ 59"
    unfolding k_def [symmetric] pow59 pow52 x using j k by simp
qed

lemma round_quotient:
  fixes N s k :: nat
  assumes s: "1 \<le> s" "s \<le> 53"
    and lo: "k * 2 ^ 59 \<le> N"
    and hi: "N + 2 ^ 52 < (k + 1) * 2 ^ 59"
    and q': "q' = (if 2 ^ (s - 1) < N mod 2 ^ s \<or> (N mod 2 ^ s = 2 ^ (s - 1) \<and> odd (N div 2 ^ s))
                   then N div 2 ^ s + 1 else N div 2 ^ s)"
  shows "q' div 2 ^ (59 - s) = k"
proof -
  define t where "t = 59 - s"
  define q where "q = N div 2 ^ s"
  define r where "r = N mod 2 ^ s"
  have p59: "(2::nat) ^ 59 = 2 ^ t * 2 ^ s" using s by (simp add: t_def flip: power_add)
  have N: "N = q * 2 ^ s + r" unfolding q_def r_def by (rule div_mult_mod_eq [symmetric])
  have r: "r < 2 ^ s" by (simp add: r_def)
  have half: "(2::nat) ^ s = 2 * 2 ^ (s - 1)" using s by (cases s) simp_all
  have h52: "(2::nat) ^ (s - 1) \<le> 2 ^ 52" using s by (intro power_increasing) simp_all
  have lower: "k * 2 ^ t \<le> q"
  proof -
    have "(k * 2 ^ t) * 2 ^ s \<le> N" using lo [unfolded p59] by (simp only: mult.assoc)
    then show ?thesis unfolding q_def by (simp add: less_eq_div_iff_mult_less_eq)
  qed
  have upper: "q' < (k + 1) * 2 ^ t"
  proof -
    have "q' * 2 ^ s \<le> N + 2 ^ (s - 1)"
    proof (cases "q' = q")
      case True
      then show ?thesis using N by simp
    next
      case False
      with q' have 1: "q' = q + 1" and 2: "2 ^ (s - 1) \<le> r"
        by (auto simp: q_def r_def split: if_splits)
      have "q' * 2 ^ s = q * 2 ^ s + 2 ^ s" by (simp add: 1)
      also have "\<dots> = q * 2 ^ s + 2 ^ (s - 1) + 2 ^ (s - 1)" using half by simp
      also have "\<dots> \<le> N + 2 ^ (s - 1)" using N 2 by simp
      finally show ?thesis .
    qed
    also have "\<dots> \<le> N + 2 ^ 52" using h52 by simp
    also have "\<dots> < ((k + 1) * 2 ^ t) * 2 ^ s" using hi [unfolded p59] by (simp only: mult.assoc)
    finally show ?thesis by simp
  qed
  have ql: "q \<le> q'" using q' by (simp add: q_def)
  have "q' div 2 ^ t = k"
  proof (rule div_nat_eqI)
    show "2 ^ t * k \<le> q'" using lower ql by (simp add: mult.commute)
    show "q' < 2 ^ t * Suc k" using upper by (simp add: mult.commute)
  qed
  then show ?thesis by (simp add: t_def)
qed

lemma sint_of_nat_small:
  assumes "n < 2 ^ 63"
  shows "sint (of_nat n :: go_int) = int n"
proof -
  have "sint (of_nat n :: go_int) = signed_take_bit 63 (int n)"
    using sint_sbintrunc' [where 'a = 64, of "int n"] by simp
  also have "\<dots> = int n"
    using assms by (intro signed_take_bit_int_eq_self) (simp_all add: nat_less_iff [symmetric])
  finally show ?thesis .
qed

lemma sint_add_of_nat:
  assumes "sint a + int j < 2 ^ 63"
  shows "sint (a + of_nat j :: go_int) = sint a + int j"
proof -
  have lo: "- (2 ^ 63) \<le> sint a" using sint_ge [of a] by simp
  have "a + of_nat j = (word_of_int (sint a + int j) :: go_int)" by simp
  then have "sint (a + of_nat j) = signed_take_bit 63 (sint a + int j)"
    using sint_sbintrunc' [where 'a = 64, of "sint a + int j"] by simp
  also have "\<dots> = sint a + int j"
    using assms lo by (intro signed_take_bit_int_eq_self) simp_all
  finally show ?thesis .
qed

lemma mul_001_exact:
  assumes "x < 2 ^ 53"
  shows "int_of_float64 (float64_mul (Float64 False x 0) float64_0_01) = of_nat (x div 100)"
proof -
  define N where "N = x * 5764607523034235"
  define l where "l = bit_length N"
  show ?thesis
  proof (cases "l \<le> 53")
    case True
    have N53: "N < 2 ^ 53"
    proof (cases "N = 0")
      case False
      from bit_length_bounds [OF False] have "N < 2 ^ l" by (simp add: l_def)
      also have "(2::nat) ^ l \<le> 2 ^ 53" using True by (intro power_increasing) simp_all
      finally show ?thesis .
    qed simp
    then have "x < 2" unfolding N_def pow53 by simp
    then have x0: "x div 100 = 0" by simp
    have "int N div 2 ^ 59 = 0" using N53 by (simp add: pow53)
    then show ?thesis using True x0
      by (simp add: float64_0_01_def round_to_53_def N_def [symmetric] l_def [symmetric])
  next
    case False
    define s where "s = l - 53"
    have s1: "1 \<le> s" using False by (simp add: s_def)
    have N0: "N \<noteq> 0"
    proof
      assume "N = 0"
      then have "l = 0" by (simp add: l_def bit_length.simps)
      with False show False by simp
    qed
    from bit_length_bounds [OF N0] have lb: "2 ^ (l - 1) \<le> N" by (simp add: l_def)
    have "N < 2 ^ 53 * 2 ^ 53" unfolding N_def using assms
      by (intro mult_strict_mono) simp_all
    also have "(2::nat) ^ 53 * 2 ^ 53 = 2 ^ 106" by (simp flip: power_add)
    finally have "N < 2 ^ 106" .
    with lb have "(2::nat) ^ (l - 1) < 2 ^ 106" by (rule le_less_trans)
    then have "l - 1 < 106" by (simp only: power_strict_increasing_iff rel_simps)
    then have s53: "s \<le> 53" by (simp add: s_def)
    define q' where "q' = (if 2 ^ (s - 1) < N mod 2 ^ s \<or> (N mod 2 ^ s = 2 ^ (s - 1) \<and> odd (N div 2 ^ s))
                   then N div 2 ^ s + 1 else N div 2 ^ s)"
    have lo: "(x div 100) * 2 ^ 59 \<le> N" and hi: "N + 2 ^ 52 < (x div 100 + 1) * 2 ^ 59"
      unfolding N_def using product_bounds [OF assms] by simp_all
    have k: "q' div 2 ^ (59 - s) = x div 100"
      by (rule round_quotient [OF s1 s53 lo hi q'_def])
    have r: "round_to_53 N (- 59) = (q', - 59 + int s)"
      using False by (simp add: round_to_53_def l_def [symmetric] s_def [symmetric] q'_def Let_def)
    have e: "nat (59 - int s) = 59 - s" using s53 by simp
    have "int q' div 2 ^ (59 - s) = int (x div 100)"
      using k by (metis of_nat_numeral of_nat_power zdiv_int)
    moreover have "int (x div 100) < 2 ^ 63" using assms by (simp add: pow53)
    ultimately show ?thesis using s53 s1
      by (simp add: float64_0_01_def N_def [symmetric] r e)
  qed
qed

lemma round_to_53_small: "m < 2 ^ 53 \<Longrightarrow> round_to_53 m e = (m, e)"
  using bit_length_le [of m 53] by (simp add: round_to_53_def)

lemma float64_of_int_small:
  assumes "0 \<le> sint x" "sint x < 2 ^ 53"
  shows "float64_of_int x = Float64 False (nat (sint x)) 0"
proof -
  have "nat \<bar>sint x\<bar> < 2 ^ 53" using assms by (simp add: nat_less_iff)
  then have "round_to_53 (nat \<bar>sint x\<bar>) 0 = (nat \<bar>sint x\<bar>, 0)" by (rule round_to_53_small)
  then show ?thesis using assms(1) by (simp add: float64_of_int_def)
qed

lemma renewal_count_exact:
  assumes n: "length (DeletionCandidates (status st)) < 2 ^ 46"
    and p: "0 \<le>s RenewalPercentage cfg" "RenewalPercentage cfg \<le>s 100"
  shows "renewal_count cfg st
           = of_nat (length (DeletionCandidates (status st)) * nat (sint (RenewalPercentage cfg))
                       div 100)"
proof -
  define n where "n = length (DeletionCandidates (status st))"
  define pn where "pn = nat (sint (RenewalPercentage cfg))"
  have n46: "n < 2 ^ 46" using n by (simp add: n_def)
  have p0: "0 \<le> sint (RenewalPercentage cfg)" and p100: "sint (RenewalPercentage cfg) \<le> 100"
    using p by (simp_all add: word_sle_eq)
  have pn: "pn \<le> 100" using p100 by (simp add: pn_def)
  have sn: "sint (of_nat n :: go_int) = int n" using n46 by (intro sint_of_nat_small) simp
  have fn: "float64_of_int (of_nat n) = Float64 False n 0"
    using float64_of_int_small [of "of_nat n :: go_int"] n46 by (simp add: sn)
  have fp: "float64_of_int (RenewalPercentage cfg) = Float64 False pn 0"
    using float64_of_int_small [of "RenewalPercentage cfg"] p0 p100 by (simp add: pn_def)
  have "n * pn \<le> n * 100" using pn by simp
  also have "\<dots> < 2 ^ 46 * 100" using n46 by simp
  also have "\<dots> < (2::nat) ^ 53" by simp
  finally have prod: "n * pn < 2 ^ 53" .
  have m1: "float64_mul (Float64 False n 0) (Float64 False pn 0) = Float64 False (n * pn) 0"
    by (simp add: round_to_53_small [OF prod])
  show ?thesis
    unfolding renewal_count_def n_def [symmetric] fn fp m1 pn_def [symmetric]
    by (rule mul_001_exact [OF prod])
qed

subsection \<open>The renewal case\<close>

text \<open>
  Claim C8 says that on every renewal tick the driver computes
  \<open>d = floor(n * p / 100)\<close> and, unless \<open>d = 0\<close>, attempts to stop exactly the \<open>d\<close>
  oldest candidates and then attempts exactly \<open>d\<close> starts. The number is computed as
  claimed, but the stops end at the first RPC error, an error skips the starts, and
  the starts are subject to the cap. With ten candidates and 20 percent, \<open>d\<close> is 2:
  when ten ghosts are counted and the cap is 10, two stops and one start are issued;
  when the first stop fails, it is the only call of the turn.
\<close>

theorem renewal_starts_fewer_than_computed:
  "renewal_count (config_with 10 20) (driver_with 10 ten_ghosts) = 2 \<and>
   Run_renewal ok_env (config_with 10 20) (driver_with 10 ten_ghosts) world0
     = Inr (\<lparr>status = \<lparr>Count = ghost_count 12, DeletionCandidates = ten_ghosts\<rparr>,
              startingGhosts = [(''u'', 0), ([], 1)]\<rparr>,
            \<lparr>calls = [StopWorkspace ''a'', StopWorkspace ''b'', StartWorkspace ''u'' ''uu''],
               uuids_drawn = 2, clock_reads = 2\<rparr>) \<and>
   Run_renewal first_rpc_fails_env (config_with 10 20) (driver_with 10 ten_ghosts) world0
     = Inr (driver_with 10 ten_ghosts,
            \<lparr>calls = [StopWorkspace ''a''], uuids_drawn = 0, clock_reads = 0\<rparr>)"
proof -
  have rc: "renewal_count (config_with 10 20) (driver_with 10 ten_ghosts) = 2"
    by (simp add: renewal_count_def config_with_def driver_with_def ten_ghosts_def
        float64_of_int_def round_to_53_def float64_0_01_def bit_length.simps Let_def)
  have 1: "Run_renewal ok_env (config_with 10 20) (driver_with 10 ten_ghosts) world0
     = Inr (\<lparr>status = \<lparr>Count = ghost_count 12, DeletionCandidates = ten_ghosts\<rparr>,
              startingGhosts = [(''u'', 0), ([], 1)]\<rparr>,
            \<lparr>calls = [StopWorkspace ''a'', StopWorkspace ''b'', StartWorkspace ''u'' ''uu''],
               uuids_drawn = 2, clock_reads = 2\<rparr>)"
    unfolding Run_renewal_def rc by (simp add: driver_eval ten_ghosts_def)
  have 2: "Run_renewal first_rpc_fails_env (config_with 10 20) (driver_with 10 ten_ghosts) world0
     = Inr (driver_with 10 ten_ghosts,
            \<lparr>calls = [StopWorkspace ''a''], uuids_drawn = 0, clock_reads = 0\<rparr>)"
    unfolding Run_renewal_def rc by (simp add: driver_eval ten_ghosts_def first_rpc_fails_env_def)
  from rc 1 2 show ?thesis by blast
qed

text \<open>
  Claim C8, amended. On a renewal tick with \<open>n\<close> deletion candidates (fewer than
  \<open>2^46\<close>, more than any process can hold) and a percentage \<open>p\<close> in \<open>[0, 100]\<close>, the
  driver computes exactly \<open>d = floor(n * p / 100)\<close>, which is at most \<open>n\<close>. If \<open>d = 0\<close>
  it does nothing. Otherwise it issues stops for the \<open>d\<close> oldest candidates in order
  and ends them at the first stop that returns an error other than NOT_FOUND; after
  such an error it issues no start and leaves the driver as it was. When none of the
  \<open>d\<close> stops returns such an error, all \<open>d\<close> are issued and the start algorithm is
  run for \<open>d\<close>: it issues at most \<open>d\<close> starts and nothing else, and exactly \<open>d\<close> when
  no UUID and no RPC fails and \<open>count.ghost + d\<close> does not exceed
  \<open>maxGhostWorkspaces\<close>.
\<close>

theorem renewal_turn:
  assumes n: "length (DeletionCandidates (status st)) < 2 ^ 46"
    and p: "0 \<le>s RenewalPercentage cfg" "RenewalPercentage cfg \<le>s 100"
  shows "let cands = DeletionCandidates (status st);
             d = length cands * nat (sint (RenewalPercentage cfg)) div 100;
             base = length (calls w)
         in renewal_count cfg st = of_nat d \<and> d \<le> length cands \<and>
            (d = 0 \<longrightarrow> Run_renewal e cfg st w = Inr (st, w)) \<and>
            (0 < d \<longrightarrow>
               (\<forall>j<d. rpc e (base + j) = OtherCode \<and> (\<forall>i<j. rpc e (base + i) \<noteq> OtherCode) \<longrightarrow>
                  Run_renewal e cfg st w
                    = Inr (st, w\<lparr>calls := calls w @ map StopWorkspace (take (Suc j) cands)\<rparr>)) \<and>
               ((\<forall>j<d. rpc e (base + j) \<noteq> OtherCode) \<longrightarrow>
                  (\<exists>st' w' starts.
                     Run_renewal e cfg st w = Inr (st', w') \<and>
                     calls w' = calls w @ map StopWorkspace (take d cands) @ starts \<and>
                     length starts \<le> d \<and>
                     (\<forall>c\<in>set starts. \<exists>a b. c = StartWorkspace a b) \<and>
                     ((\<forall>j. rpc e j = OK \<and> NewRandom e j \<noteq> None) \<and>
                      sint (Ghost (Count (status st))) + int d \<le> sint (MaxGhostWorkspaces cfg)
                        \<longrightarrow> length starts = d))))"
proof -
  define cands where "cands = DeletionCandidates (status st)"
  define pn where "pn = nat (sint (RenewalPercentage cfg))"
  define d where "d = length cands * pn div 100"
  define base where "base = length (calls w)"
  let ?ok = "(\<forall>j. rpc e j = OK \<and> NewRandom e j \<noteq> None) \<and>
             sint (Ghost (Count (status st))) + int d \<le> sint (MaxGhostWorkspaces cfg)"
  have rc: "renewal_count cfg st = of_nat d"
    unfolding d_def cands_def pn_def by (rule renewal_count_exact [OF n p])
  have "sint (RenewalPercentage cfg) \<le> 100" using p(2) by (simp add: word_sle_eq)
  then have pn: "pn \<le> 100" by (simp add: pn_def)
  have "length cands * pn div 100 \<le> length cands * 100 div 100"
    using pn by (intro div_le_mono) simp
  then have dn: "d \<le> length cands" by (simp add: d_def)
  have n63: "length cands < 2 ^ 63"
  proof -
    have "length cands < 2 ^ 46" using n by (simp add: cands_def)
    also have "(2::nat) ^ 46 < 2 ^ 63" by simp
    finally show ?thesis .
  qed
  with dn have d63: "d < 2 ^ 63" by simp
  have sd: "sint (of_nat d :: go_int) = int d" by (rule sint_of_nat_small [OF d63])
  have sn: "sint (of_nat (length cands) :: go_int) = int (length cands)"
    by (rule sint_of_nat_small [OF n63])
  have len: "length (take d cands) = d" using dn by simp
  have zero: "Run_renewal e cfg st w = Inr (st, w)" if "d = 0"
    using that by (simp add: Run_renewal_def rc)
  have step: "Run_renewal e cfg st w =
        (case stopGhostWorkspaces e (take d cands) w of
           (Some x, w1) \<Rightarrow> Inr (st, w1)
         | (None, w1) \<Rightarrow>
             (case startGhostWorkspaces e cfg (of_nat d) (status st) w1 of
                (Inl x, w2) \<Rightarrow> if is_panic x then Inl x else Inr (st, w2)
              | (Inr ids, w2) \<Rightarrow> Inr (record_started e ids st w2)))"
    if "0 < d"
  proof -
    have nz: "(of_nat d :: go_int) \<noteq> 0"
    proof
      assume "(of_nat d :: go_int) = 0"
      then have "sint (of_nat d :: go_int) = 0" by simp
      with sd that show False by simp
    qed
    then show ?thesis using dn
      by (simp add: Run_renewal_def rc Let_def word_sless_alt sd sn cands_def [symmetric])
  qed
  have failed: "Run_renewal e cfg st w
                  = Inr (st, w\<lparr>calls := calls w @ map StopWorkspace (take (Suc j) cands)\<rparr>)"
    if "0 < d" and j: "j < d" and err: "rpc e (base + j) = OtherCode"
      and before: "\<forall>i<j. rpc e (base + i) \<noteq> OtherCode" for j
  proof -
    have "stopGhostWorkspaces e (take d cands) w
            = (Some RPCError,
               w\<lparr>calls := calls w @ map StopWorkspace (take (Suc j) (take d cands))\<rparr>)"
      using j err before len
      by (intro stopGhostWorkspaces_first_error) (simp_all add: base_def)
    moreover have "take (Suc j) (take d cands) = take (Suc j) cands"
      using j by (simp add: min_def)
    ultimately show ?thesis using step [OF \<open>0 < d\<close>] by simp
  qed
  have passed: "\<exists>st' w' starts.
                  Run_renewal e cfg st w = Inr (st', w') \<and>
                  calls w' = calls w @ map StopWorkspace (take d cands) @ starts \<and>
                  length starts \<le> d \<and>
                  (\<forall>c\<in>set starts. \<exists>a b. c = StartWorkspace a b) \<and>
                  (?ok \<longrightarrow> length starts = d)"
    if "0 < d" and none: "\<forall>j<d. rpc e (base + j) \<noteq> OtherCode"
  proof -
    let ?w1 = "w\<lparr>calls := calls w @ map StopWorkspace (take d cands)\<rparr>"
    have stop: "stopGhostWorkspaces e (take d cands) w = (None, ?w1)"
      using none len by (intro stopGhostWorkspaces_no_error) (simp add: base_def)
    obtain res w2 where start: "startGhostWorkspaces e cfg (of_nat d) (status st) ?w1 = (res, w2)"
      by fastforce
    then have loop: "startGhostWorkspaces_loop e cfg (of_nat d) (status st) 0
                       (replicate d []) ?w1 = (res, w2)"
      by (simp add: startGhostWorkspaces_def word_sless_alt sd)
    from startGhostWorkspaces_loop_calls [OF loop] obtain starts where s:
      "calls w2 = calls ?w1 @ starts" "length starts \<le> d"
      "\<forall>c\<in>set starts. \<exists>a b. c = StartWorkspace a b" "\<forall>x. res = Inl x \<longrightarrow> \<not> is_panic x"
      by (auto simp: sd)
    have all: "length starts = d" if ok: "?ok"
    proof -
      have room: "\<forall>j. int j < sint (of_nat d :: go_int) \<longrightarrow>
               \<not> MaxGhostWorkspaces cfg <s Ghost (Count (status st)) + of_nat j"
      proof (intro allI impI)
        fix j
        assume "int j < sint (of_nat d :: go_int)"
        then have j: "j < d" by (simp add: sd)
        have "sint (MaxGhostWorkspaces cfg) < 2 ^ 63"
          using sint_lt [of "MaxGhostWorkspaces cfg"] by simp
        with ok j have "sint (Ghost (Count (status st))) + int j < 2 ^ 63" by linarith
        then have "sint (Ghost (Count (status st)) + of_nat j)
                     = sint (Ghost (Count (status st))) + int j"
          by (rule sint_add_of_nat)
        with ok j show "\<not> MaxGhostWorkspaces cfg <s Ghost (Count (status st)) + of_nat j"
          by (simp add: word_sless_alt)
      qed
      from startGhostWorkspaces_loop_all_started [OF loop _ room] ok
      have "length (calls w2) = length (calls ?w1) + d" by (simp add: sd)
      with s(1) show ?thesis by simp
    qed
    obtain st' w' where run: "Run_renewal e cfg st w = Inr (st', w')" "calls w' = calls w2"
    proof (cases res)
      case (Inl x)
      with s(4) have "\<not> is_panic x" by simp
      with step [OF \<open>0 < d\<close>] stop start Inl have "Run_renewal e cfg st w = Inr (st, w2)"
        by simp
      then show ?thesis using that by blast
    next
      case (Inr ids)
      with step [OF \<open>0 < d\<close>] stop start
      have "Run_renewal e cfg st w = Inr (record_started e ids st w2)" by simp
      then have "Run_renewal e cfg st w
                   = Inr (fst (record_started e ids st w2), snd (record_started e ids st w2))"
        by simp
      then show ?thesis using that record_started_calls by blast
    qed
    show ?thesis
    proof (intro exI conjI)
      show "Run_renewal e cfg st w = Inr (st', w')" by (rule run(1))
      show "calls w' = calls w @ map StopWorkspace (take d cands) @ starts"
        using run(2) s(1) by simp
      show "length starts \<le> d" by (rule s(2))
      show "\<forall>c\<in>set starts. \<exists>a b. c = StartWorkspace a b" by (rule s(3))
      show "?ok \<longrightarrow> length starts = d" using all by blast
    qed
  qed
  from rc dn zero failed passed show ?thesis
    unfolding Let_def cands_def [symmetric] pn_def [symmetric] d_def [symmetric]
      base_def [symmetric]
    by blast
qed

theorem renewal_turn_witness:
  "length (DeletionCandidates (status (driver_with 10 ten_ghosts))) < 2 ^ 46 \<and>
   0 \<le>s RenewalPercentage (config_with 50 20) \<and> RenewalPercentage (config_with 50 20) \<le>s 100 \<and>
   renewal_count (config_with 50 20) (driver_with 10 ten_ghosts) = 2 \<and>
   (\<exists>st' w' starts.
      Run_renewal ok_env (config_with 50 20) (driver_with 10 ten_ghosts) world0 = Inr (st', w') \<and>
      calls w' = [StopWorkspace ''a'', StopWorkspace ''b''] @ starts \<and> length starts = 2 \<and>
      (\<forall>c\<in>set starts. \<exists>a b. c = StartWorkspace a b)) \<and>
   Run_renewal first_rpc_fails_env (config_with 50 20) (driver_with 10 ten_ghosts) world0
     = Inr (driver_with 10 ten_ghosts, world0\<lparr>calls := [StopWorkspace ''a'']\<rparr>)"
proof -
  let ?st = "driver_with 10 ten_ghosts" and ?cfg = "config_with 50 20"
  have n: "length (DeletionCandidates (status ?st)) < 2 ^ 46"
    by (simp add: driver_with_def ten_ghosts_def)
  have p: "0 \<le>s RenewalPercentage ?cfg" "RenewalPercentage ?cfg \<le>s 100"
    by (simp_all add: config_with_def word_sle_eq)
  have d: "length (DeletionCandidates (status ?st)) * nat (sint (RenewalPercentage ?cfg)) div 100 = 2"
    by (simp add: driver_with_def ten_ghosts_def config_with_def)
  have ok: "(\<forall>j. rpc ok_env j = OK \<and> NewRandom ok_env j \<noteq> None) \<and>
            sint (Ghost (Count (status ?st))) + int 2 \<le> sint (MaxGhostWorkspaces ?cfg)"
    by (simp add: ok_env_def driver_with_def ghost_count_def config_with_def)
  have none: "\<forall>j<2. rpc ok_env (length (calls world0) + j) \<noteq> OtherCode"
    by (simp add: ok_env_def)
  have c: "take 2 (DeletionCandidates (status ?st)) = [''a'', ''b'']"
    by (simp add: driver_with_def ten_ghosts_def)
  have c1: "take (Suc 0) (DeletionCandidates (status ?st)) = [''a'']"
    by (simp add: driver_with_def ten_ghosts_def)
  have pos: "(0::nat) < 2" by simp
  have first: "rpc first_rpc_fails_env (length (calls world0) + 0) = OtherCode \<and>
               (\<forall>i<0. rpc first_rpc_fails_env (length (calls world0) + i) \<noteq> OtherCode)"
    by (simp add: first_rpc_fails_env_def world0_def)
  from renewal_turn [OF n p, of world0 ok_env, unfolded Let_def d] ok none
  obtain st' w' starts where r:
    "renewal_count ?cfg ?st = 2"
    "Run_renewal ok_env ?cfg ?st world0 = Inr (st', w')"
    "calls w' = calls world0 @ map StopWorkspace (take 2 (DeletionCandidates (status ?st))) @ starts"
    "\<forall>c\<in>set starts. \<exists>a b. c = StartWorkspace a b" "length starts = 2"
    by auto
  from r(3) c have r3: "calls w' = [StopWorkspace ''a'', StopWorkspace ''b''] @ starts"
    by (simp add: world0_def)
  note fails = renewal_turn [OF n p, of world0 first_rpc_fails_env, unfolded Let_def d,
      THEN conjunct2, THEN conjunct2, THEN conjunct2, THEN mp, OF pos, THEN conjunct1,
      rule_format, of 0]
  have "Run_renewal first_rpc_fails_env ?cfg ?st world0
          = Inr (?st, world0\<lparr>calls := calls world0 @
                   map StopWorkspace (take (Suc 0) (DeletionCandidates (status ?st)))\<rparr>)"
    by (rule fails [OF pos first])
  then have f: "Run_renewal first_rpc_fails_env ?cfg ?st world0
          = Inr (?st, world0\<lparr>calls := [StopWorkspace ''a'']\<rparr>)"
    by (simp add: c1 world0_def)
  from n p r(1,2,4,5) r3 f show ?thesis by blast
qed

end
